theory Spec2Isabelle
  imports Complex_Main "HOL-Library.Word" "HOL-Library.Multiset"
begin

unbundle bit_operations_syntax

section \<open>Machine types\<close>

text \<open>
  \<open>uint32_t\<close> and \<open>uint64_t\<close> are words: \<open>+\<close>, \<open>-\<close> and \<open>*\<close> wrap around as in C.
  A C \<open>int\<close> that is only stored and compared is an \<open>int\<close> in the 32-bit signed range;
  \<open>int_of_size\<close> is the conversion of a \<open>size_t\<close> to \<open>int\<close> (keeping the low 32 bits,
  read as two's complement).
\<close>

type_synonym u32 = "32 word"
type_synonym u64 = "64 word"

definition int_of_size :: "nat \<Rightarrow> int" where
  "int_of_size n = sint (word_of_nat n :: 32 word)"

section \<open>keyboard.c: the lookup table\<close>

record table_entry =
  symbol :: u32
  code :: u32
  level :: int

text \<open>
  The keymap is an object of libxkbcommon. What keyboard.c reads of it, at layout index 0:
  the key codes \<open>xkb_keymap_key_for_each\<close> visits, in its order (\<open>km_codes\<close>); for a key
  code its levels, each with the symbols of that level (\<open>km_levels\<close>: its length is
  \<open>xkb_keymap_num_levels_for_key\<close>, its elements are what
  \<open>xkb_keymap_key_get_syms_by_level\<close> returns); and the modifier masks of
  \<open>xkb_keymap_key_get_mods_for_level\<close> for a key code and a level (\<open>km_mods\<close>).
\<close>

record xkb_keymap =
  km_codes :: "u32 list"
  km_levels :: "u32 \<Rightarrow> u32 list list"
  km_mods :: "u32 \<Rightarrow> u32 \<Rightarrow> u32 list"

text \<open>
  Modelled from the spec: intset.c is not among the sources. The spec's KeyStateSet is the
  "set of currently-pressed code values", a presence map over key codes: \<open>intset_is_set\<close>
  is membership, \<open>intset_set\<close> adds a code, \<open>intset_clear\<close> removes it.
\<close>

definition intset_is_set :: "u32 set \<Rightarrow> u32 \<Rightarrow> bool" where
  "intset_is_set s c = (c \<in> s)"

definition intset_set :: "u32 set \<Rightarrow> u32 \<Rightarrow> u32 set" where
  "intset_set s c = insert c s"

definition intset_clear :: "u32 set \<Rightarrow> u32 \<Rightarrow> u32 set" where
  "intset_clear s c = s - {c}"

text \<open>
  \<open>struct keyboard\<close>. \<open>lookup_table\<close> holds the \<open>lookup_table_length\<close> entries written so
  far (so the length field is \<open>length (lookup_table self)\<close>); \<open>lookup_table_size\<close> is the
  capacity of the allocation.
\<close>

record keyboard =
  keymap :: xkb_keymap
  lookup_table :: "table_entry list"
  lookup_table_size :: nat
  key_state :: "u32 set"

text \<open>
  \<open>append_entry\<close>. The allocator is the environment: \<open>alloc n\<close> says whether a request
  for \<open>n\<close> entries succeeds. When \<open>realloc\<close> fails the entry is dropped and nothing is
  reported, as in the source.
\<close>

definition append_entry ::
  "(nat \<Rightarrow> bool) \<Rightarrow> keyboard \<Rightarrow> u32 \<Rightarrow> u32 \<Rightarrow> int \<Rightarrow> keyboard" where
  "append_entry alloc self symb cd lvl =
     (let put = (\<lambda>s. s\<lparr>lookup_table :=
                   lookup_table s @ [\<lparr>symbol = symb, code = cd, level = lvl\<rparr>]\<rparr>)
      in if lookup_table_size self \<le> length (lookup_table self) then
           (let new_size = lookup_table_size self * 2
            in if \<not> alloc new_size then self
               else put (self\<lparr>lookup_table_size := new_size\<rparr>))
         else put self)"

text \<open>\<open>key_iter\<close>: the two nested loops over the levels of a key and the symbols of a level.\<close>

definition key_iter :: "(nat \<Rightarrow> bool) \<Rightarrow> xkb_keymap \<Rightarrow> u32 \<Rightarrow> keyboard \<Rightarrow> keyboard" where
  "key_iter alloc km cd self =
     fold (\<lambda>lvl s. fold (\<lambda>symb s'. append_entry alloc s' symb cd (int_of_size lvl))
                         (km_levels km cd ! lvl) s)
          [0 ..< length (km_levels km cd)] self"

definition compare_symbols :: "table_entry \<Rightarrow> table_entry \<Rightarrow> int" where
  "compare_symbols x y =
     (if symbol x = symbol y
      then (if level x < level y then - 1 else if level x > level y then 1 else 0)
      else (if symbol x < symbol y then - 1 else if symbol x > symbol y then 1 else 0))"

definition compare_symbols2 :: "table_entry \<Rightarrow> table_entry \<Rightarrow> int" where
  "compare_symbols2 x y =
     (if symbol x < symbol y then - 1 else if symbol x > symbol y then 1 else 0)"

text \<open>
  \<open>qsort\<close> and \<open>bsearch\<close> are libc. The model takes them as parameters and the theorems
  assume what the C standard promises of them. \<open>qsort_sorts\<close>: the array afterwards is a
  rearrangement of the array before, in ascending order of the comparison function (the
  order of elements that compare equal is unspecified). \<open>bsearch_finds\<close>: on an array
  that is partitioned with respect to the key (the elements greater than the key after
  those equal to it, those after the smaller ones), the result is some element that
  compares equal to the key, and a null pointer when there is none. The model's
  \<open>bsearch\<close> returns the index of the element instead of a pointer to it.
\<close>

definition qsort_sorts ::
  "(('a \<Rightarrow> 'a \<Rightarrow> int) \<Rightarrow> 'a list \<Rightarrow> 'a list) \<Rightarrow> ('a \<Rightarrow> 'a \<Rightarrow> int) \<Rightarrow> bool" where
  "qsort_sorts qs cmp =
     (\<forall>xs. mset (qs cmp xs) = mset xs \<and> sorted_wrt (\<lambda>a b. cmp a b \<le> 0) (qs cmp xs))"

definition bsearch_partitioned :: "('a \<Rightarrow> 'a \<Rightarrow> int) \<Rightarrow> 'a \<Rightarrow> 'a list \<Rightarrow> bool" where
  "bsearch_partitioned cmp key xs =
     (\<forall>i j. i < j \<and> j < length xs \<longrightarrow>
        (cmp key (xs ! i) < 0 \<longrightarrow> cmp key (xs ! j) < 0) \<and>
        (0 < cmp key (xs ! j) \<longrightarrow> 0 < cmp key (xs ! i)))"

definition bsearch_finds ::
  "(('a \<Rightarrow> 'a \<Rightarrow> int) \<Rightarrow> 'a \<Rightarrow> 'a list \<Rightarrow> nat option) \<Rightarrow> ('a \<Rightarrow> 'a \<Rightarrow> int) \<Rightarrow> bool" where
  "bsearch_finds bs cmp =
     (\<forall>key xs. bsearch_partitioned cmp key xs \<longrightarrow>
        (case bs cmp key xs of
           None \<Rightarrow> \<forall>i < length xs. cmp key (xs ! i) \<noteq> 0
         | Some i \<Rightarrow> i < length xs \<and> cmp key (xs ! i) = 0))"

text \<open>
  Two functions that keep these promises, to run the model on concrete keymaps: an
  insertion sort, and the binary search loop over the index range \<open>[l, u)\<close>.
\<close>

fun insort_cmp :: "('a \<Rightarrow> 'a \<Rightarrow> int) \<Rightarrow> 'a \<Rightarrow> 'a list \<Rightarrow> 'a list" where
  "insort_cmp cmp x [] = [x]"
| "insort_cmp cmp x (y # ys) =
     (if cmp x y \<le> 0 then x # y # ys else y # insort_cmp cmp x ys)"

definition insertion_qsort :: "('a \<Rightarrow> 'a \<Rightarrow> int) \<Rightarrow> 'a list \<Rightarrow> 'a list" where
  "insertion_qsort cmp xs = foldr (insort_cmp cmp) xs []"

function bsearch_range :: "('a \<Rightarrow> 'a \<Rightarrow> int) \<Rightarrow> 'a \<Rightarrow> 'a list \<Rightarrow> nat \<Rightarrow> nat \<Rightarrow> nat option" where
  "bsearch_range cmp key xs l u =
     (if l < u then
        (let idx = (l + u) div 2; c = cmp key (xs ! idx)
         in if c < 0 then bsearch_range cmp key xs l idx
            else if 0 < c then bsearch_range cmp key xs (idx + 1) u
            else Some idx)
      else None)"
  by pat_completeness auto
termination
  by (relation "measure (\<lambda>(cmp, key, xs, l, u). u - l)") auto

definition binary_bsearch :: "('a \<Rightarrow> 'a \<Rightarrow> int) \<Rightarrow> 'a \<Rightarrow> 'a list \<Rightarrow> nat option" where
  "binary_bsearch cmp key xs = bsearch_range cmp key xs 0 (length xs)"

text \<open>
  \<open>create_lookup_table\<close> returns the C return value and the keyboard. A failed \<open>malloc\<close>
  returns \<open>-1\<close>.
\<close>

definition create_lookup_table ::
  "(nat \<Rightarrow> bool) \<Rightarrow> ((table_entry \<Rightarrow> table_entry \<Rightarrow> int) \<Rightarrow> table_entry list \<Rightarrow> table_entry list)
     \<Rightarrow> keyboard \<Rightarrow> int \<times> keyboard" where
  "create_lookup_table alloc qs self =
     (let self1 = self\<lparr>lookup_table := [], lookup_table_size := 128\<rparr>
      in if \<not> alloc (lookup_table_size self1) then (- 1, self1)
         else (let self2 = fold (key_iter alloc (keymap self1)) (km_codes (keymap self1)) self1
               in (0, self2\<lparr>lookup_table := qs compare_symbols (lookup_table self2)\<rparr>)))"

text \<open>
  The entries the spec asks for: "for each key code in the keymap, for each level defined
  for that code at layout index 0, for each symbol at that level, append
  (symbol, code, level)".
\<close>

definition keymap_triples :: "xkb_keymap \<Rightarrow> table_entry list" where
  "keymap_triples km =
     concat (map (\<lambda>cd. concat (map (\<lambda>lvl. map (\<lambda>symb. \<lparr>symbol = symb, code = cd,
                                                      level = int_of_size lvl\<rparr>)
                                              (km_levels km cd ! lvl))
                                 [0 ..< length (km_levels km cd)]))
                 (km_codes km))"

text \<open>The order of the table: by symbol, and by level among the entries of one symbol.\<close>

definition table_sorted :: "table_entry list \<Rightarrow> bool" where
  "table_sorted t =
     sorted_wrt (\<lambda>a b. symbol a < symbol b \<or> (symbol a = symbol b \<and> level a \<le> level b)) t"

section \<open>keyboard.c: lookup and injection\<close>

text \<open>
  The loop of \<open>keyboard_find_symbol\<close> that steps back from the entry \<open>bsearch\<close> found
  while the entry before it has the same symbol; entries are named by their index.
\<close>

fun walk_left :: "table_entry list \<Rightarrow> u32 \<Rightarrow> nat \<Rightarrow> nat" where
  "walk_left t symb 0 = 0"
| "walk_left t symb (Suc i) = (if symbol (t ! i) = symb then walk_left t symb i else Suc i)"

definition keyboard_find_symbol ::
  "((table_entry \<Rightarrow> table_entry \<Rightarrow> int) \<Rightarrow> table_entry \<Rightarrow> table_entry list \<Rightarrow> nat option)
     \<Rightarrow> keyboard \<Rightarrow> u32 \<Rightarrow> nat option" where
  "keyboard_find_symbol bs self symb =
     (case bs compare_symbols2 \<lparr>symbol = symb, code = 0, level = 0\<rparr> (lookup_table self) of
        None \<Rightarrow> None
      | Some i \<Rightarrow> Some (walk_left (lookup_table self) symb i))"

text \<open>
  What \<open>keyboard_feed\<close> sends: the two requests of the virtual-keyboard protocol, and the
  error it logs for a symbol it cannot resolve. The debug output of
  \<open>keyboard__dump_entry\<close>, compiled in without \<open>NDEBUG\<close>, changes nothing and is left out.
\<close>

datatype wl_keyboard_key_state = WL_KEYBOARD_KEY_STATE_RELEASED | WL_KEYBOARD_KEY_STATE_PRESSED

datatype keyboard_effect =
    Log_error u32
  | Virtual_keyboard_modifiers u32 u32 u32 u32
  | Virtual_keyboard_key u32 u32 wl_keyboard_key_state

text \<open>
  \<open>keyboard_feed\<close>. \<open>xkb_keymap_key_get_mods_for_level\<close> is asked for at most one mask of
  the entry's code and level, written to \<open>mods\<close>, which stays 0 when the keymap has none.
\<close>

definition keyboard_feed ::
  "((table_entry \<Rightarrow> table_entry \<Rightarrow> int) \<Rightarrow> table_entry \<Rightarrow> table_entry list \<Rightarrow> nat option)
     \<Rightarrow> keyboard \<Rightarrow> u32 \<Rightarrow> bool \<Rightarrow> keyboard \<times> keyboard_effect list" where
  "keyboard_feed bs self symb is_pressed =
     (case keyboard_find_symbol bs self symb of
        None \<Rightarrow> (self, [Log_error symb])
      | Some i \<Rightarrow>
          (let entry = lookup_table self ! i;
               mods = (case km_mods (keymap self) (code entry) (word_of_int (level entry)) of
                         [] \<Rightarrow> 0
                       | m # _ \<Rightarrow> m);
               was_pressed = intset_is_set (key_state self) (code entry)
           in if was_pressed = is_pressed then (self, [])
              else
                (self\<lparr>key_state :=
                    (if is_pressed then intset_set (key_state self) (code entry)
                     else intset_clear (key_state self) (code entry))\<rparr>,
                 [Virtual_keyboard_modifiers 0 mods 0 0,
                  Virtual_keyboard_key 0 (code entry - 8)
                    (if is_pressed then WL_KEYBOARD_KEY_STATE_PRESSED
                     else WL_KEYBOARD_KEY_STATE_RELEASED)])))"

definition is_key_press :: "keyboard_effect \<Rightarrow> bool" where
  "is_key_press e =
     (case e of Virtual_keyboard_key _ _ st \<Rightarrow> st = WL_KEYBOARD_KEY_STATE_PRESSED | _ \<Rightarrow> False)"

section \<open>frame-capture.h\<close>

text \<open>
  Modelled from the spec: frame-capture.h is not among the sources. The spec's
  CaptureStatus is the tagged state \<open>{IN_PROGRESS, STOPPED, DONE, FAILED, FATAL}\<close>, and a
  FrameCaptureBackend carries \<open>status\<close>, \<open>damage_hint\<close>, the per-frame \<open>frame_info\<close>
  (width, height, stride, fourcc) and an attached \<open>on_done\<close> continuation.
  \<open>frame_capture_start\<close> "simply forwards" to the backend's \<open>start\<close>.
\<close>

datatype frame_capture_status =
    CAPTURE_STOPPED
  | CAPTURE_IN_PROGRESS
  | CAPTURE_FAILED
  | CAPTURE_FATAL
  | CAPTURE_DONE

record fc_frame_info =
  fourcc_format :: u32
  fi_width :: u32
  fi_height :: u32
  fi_stride :: u32

record fc_damage_hint =
  dh_x :: u32
  dh_y :: u32
  dh_width :: u32
  dh_height :: u32

record frame_capture =
  status :: frame_capture_status
  frame_info :: fc_frame_info
  damage_hint :: fc_damage_hint

section \<open>The environment of the capture backends\<close>

text \<open>
  What a backend does to the world is kept as a list of effects, in the order of the calls:
  system calls, requests to the compositor, calls to the event loop's timer, and the call
  of \<open>on_done\<close>, recorded with the status the backend has at that moment.
\<close>

record wl_buffer =
  wb_width :: u32
  wb_height :: u32
  wb_stride :: u32
  wb_format :: u32

datatype effect =
    Shm_alloc_fd nat
  | Mmap nat int
  | Munmap nat nat
  | Close int
  | Wl_shm_create_pool int nat
  | Wl_shm_pool_create_buffer u32 u32 u32 u32
  | Wl_shm_pool_destroy
  | Aml_stop
  | Aml_set_duration real
  | Aml_start
  | Screencopy_capture_output
  | Screencopy_frame_add_listener nat
  | Screencopy_frame_destroy nat
  | Screencopy_copy_with_damage "nat option" "wl_buffer option"
  | Export_dmabuf_capture_output
  | Export_dmabuf_frame_add_listener nat
  | Export_dmabuf_frame_destroy nat
  | On_done frame_capture_status

text \<open>
  The timer is an object of the event loop library aml. \<open>aml_start\<close> starts a timer that is
  not started and returns 0, and returns \<open>-1\<close> for one that is; \<open>aml_stop\<close> stops a started
  timer and returns 0, and returns \<open>-1\<close> for one that is not started.
\<close>

record aml_timer =
  started :: bool
  duration :: real

definition aml_start :: "aml_timer \<Rightarrow> int \<times> aml_timer" where
  "aml_start t = (if started t then (- 1, t) else (0, t\<lparr>started := True\<rparr>))"

definition aml_stop :: "aml_timer \<Rightarrow> int \<times> aml_timer" where
  "aml_stop t = (if started t then (0, t\<lparr>started := False\<rparr>) else (- 1, t))"

text \<open>
  The rate limit. \<open>screencopy_start\<close> and \<open>dmabuf_frame_ready\<close> compute \<open>time_left\<close> in
  IEEE double precision, from the clock reading, \<open>last_time\<close> and (for screencopy) \<open>delay\<close>,
  and branch on its sign. Double arithmetic is not modelled: the handlers take the value
  the source has computed as their argument \<open>time_left\<close>, a real number as every finite
  double is one, so that the branch of the model is the branch of the source.
\<close>

section \<open>screencopy.c\<close>

record screencopy =
  frame_capture :: frame_capture
  buffer :: "wl_buffer option"
  pixels :: nat
  bufsize :: nat
  frame :: "nat option"
  last_time :: u64
  start_time :: u64
  timer :: aml_timer
  delay :: real
  effects :: "effect list"





definition DRM_FORMAT_XRGB8888 :: u32 where
  "DRM_FORMAT_XRGB8888 = 0x34325258"


definition sc_do :: "effect list \<Rightarrow> screencopy \<Rightarrow> screencopy" where
  "sc_do es self = self\<lparr>effects := effects self @ es\<rparr>"



definition sc_set_status :: "frame_capture_status \<Rightarrow> screencopy \<Rightarrow> screencopy" where
  "sc_set_status st self = self\<lparr>frame_capture := (frame_capture self)\<lparr>status := st\<rparr>\<rparr>"





text \<open>
  \<open>screencopy__start_capture\<close>: \<open>now\<close> is the clock reading, \<open>new_frame\<close> what
  \<open>capture_output\<close> returns.
\<close>

definition screencopy__start_capture ::
  "u64 \<Rightarrow> nat option \<Rightarrow> screencopy \<Rightarrow> int \<times> screencopy" where
  "screencopy__start_capture now new_frame self =
     (let s1 = sc_do [Screencopy_capture_output] (self\<lparr>start_time := now, frame := new_frame\<rparr>)
      in case new_frame of
           None \<Rightarrow> (- 1, s1)
         | Some f \<Rightarrow> (0, sc_do [Screencopy_frame_add_listener f] s1))"

definition screencopy__poll :: "u64 \<Rightarrow> nat option \<Rightarrow> screencopy \<Rightarrow> screencopy" where
  "screencopy__poll now new_frame self = snd (screencopy__start_capture now new_frame self)"

definition screencopy_start ::
  "real \<Rightarrow> u64 \<Rightarrow> nat option \<Rightarrow> screencopy \<Rightarrow> int \<times> screencopy" where
  "screencopy_start time_left now_capture new_frame self =
     (if status (frame_capture self) = CAPTURE_IN_PROGRESS then (- 1, self)
      else
        (let s1 = sc_set_status CAPTURE_IN_PROGRESS self
         in if time_left > 0
            then (let s2 = sc_do [Aml_set_duration time_left]
                             (s1\<lparr>timer := (timer s1)\<lparr>duration := time_left\<rparr>\<rparr>);
                      (rc, t) = aml_start (timer s2)
                  in (rc, sc_do [Aml_start] (s2\<lparr>timer := t\<rparr>)))
            else screencopy__start_capture now_capture new_frame s1))"

section \<open>dmabuf.c\<close>

record dmabuf_plane =
  fd :: int
  offset :: u32
  plane_size :: u32
  pitch :: u32
  modifier :: u64

record dmabuf_frame =
  width :: u32
  height :: u32
  format :: u32
  n_planes :: u32
  plane :: "dmabuf_plane list"

text \<open>
  \<open>struct dmabuf_capture\<close>, with the part of the world it acts on: the effects so far, and
  the descriptors that are open in the process (\<open>open_fds\<close>). \<open>plane\<close> is the array of
  four planes; \<open>out_of_bounds\<close> records an access to it at an index of 4 or more, which
  the C leaves undefined.
\<close>

record dmabuf_capture =
  fc :: frame_capture
  zwlr_frame :: "nat option"
  frame :: dmabuf_frame
  last_time :: u64
  timer :: aml_timer
  effects :: "effect list"
  open_fds :: "int set"
  out_of_bounds :: bool

text \<open>
  The cancel reasons are an enum of the generated protocol header, which is not among the
  sources; in the export-dmabuf protocol \<open>permanent\<close> is 1 (\<open>temporary\<close> is 0 and
  \<open>resizing\<close> is 2). No theorem depends on the value.
\<close>

definition ZWLR_EXPORT_DMABUF_FRAME_V1_CANCEL_REASON_PERMANENT :: u32 where
  "ZWLR_EXPORT_DMABUF_FRAME_V1_CANCEL_REASON_PERMANENT = 1"

definition dmabuf_do :: "effect list \<Rightarrow> dmabuf_capture \<Rightarrow> dmabuf_capture" where
  "dmabuf_do es self = self\<lparr>effects := effects self @ es\<rparr>"

definition dmabuf_set_status :: "frame_capture_status \<Rightarrow> dmabuf_capture \<Rightarrow> dmabuf_capture" where
  "dmabuf_set_status st self = self\<lparr>fc := (fc self)\<lparr>status := st\<rparr>\<rparr>"

text \<open>\<open>close(fd)\<close>: the descriptor is no longer open, and the call is recorded.\<close>

definition close_fd :: "int \<Rightarrow> dmabuf_capture \<Rightarrow> dmabuf_capture" where
  "close_fd d self = dmabuf_do [Close d] (self\<lparr>open_fds := open_fds self - {d}\<rparr>)"

definition dmabuf_close_fds :: "dmabuf_capture \<Rightarrow> dmabuf_capture" where
  "dmabuf_close_fds self =
     (let s1 = fold (\<lambda>i s. if i < length (plane (frame s))
                            then close_fd (fd (plane (frame s) ! i)) s
                            else s\<lparr>out_of_bounds := True\<rparr>)
                    [0 ..< unat (n_planes (frame self))] self
      in s1\<lparr>frame := (frame s1)\<lparr>n_planes := 0\<rparr>\<rparr>)"

definition dmabuf_capture_stop :: "dmabuf_capture \<Rightarrow> dmabuf_capture" where
  "dmabuf_capture_stop self =
     (let (rc, t) = aml_stop (timer self);
          s1 = dmabuf_do [Aml_stop] (self\<lparr>timer := t\<rparr>);
          s2 = (if rc \<ge> 0 then dmabuf_close_fds s1 else s1);
          s3 = dmabuf_set_status CAPTURE_STOPPED s2
      in case zwlr_frame s3 of
           None \<Rightarrow> s3
         | Some f \<Rightarrow> dmabuf_do [Export_dmabuf_frame_destroy f] (s3\<lparr>zwlr_frame := None\<rparr>))"

definition dmabuf_frame_start ::
  "u32 \<Rightarrow> u32 \<Rightarrow> u32 \<Rightarrow> u32 \<Rightarrow> u32 \<Rightarrow> u32 \<Rightarrow> dmabuf_capture \<Rightarrow> dmabuf_capture" where
  "dmabuf_frame_start w h fmt mod_high mod_low num_objects self =
     (let s1 = dmabuf_do [Aml_stop] (self\<lparr>timer := snd (aml_stop (timer self))\<rparr>);
          s2 = dmabuf_close_fds s1;
          md = (push_bit 32 (ucast mod_high :: u64)) OR (ucast mod_low :: u64);
          s3 = s2\<lparr>frame := (frame s2)\<lparr>width := w, height := h, n_planes := num_objects,
                                      format := fmt,
                                      plane := map (\<lambda>p. p\<lparr>modifier := md\<rparr>)
                                                 (plane (frame s2))\<rparr>\<rparr>
      in s3\<lparr>fc := (fc s3)\<lparr>damage_hint :=
                \<lparr>dh_x = 0, dh_y = 0, dh_width = w, dh_height = h\<rparr>\<rparr>\<rparr>)"

text \<open>
  \<open>dmabuf_frame_object\<close>: the event hands over a descriptor, open in the process from
  then on, and the handler stores it in the plane the event names.
\<close>

definition dmabuf_frame_object ::
  "int \<Rightarrow> u32 \<Rightarrow> u32 \<Rightarrow> u32 \<Rightarrow> u32 \<Rightarrow> dmabuf_capture \<Rightarrow> dmabuf_capture" where
  "dmabuf_frame_object d sz off stride plane_index self =
     (let s1 = self\<lparr>open_fds := insert d (open_fds self)\<rparr>;
          k = unat plane_index
      in if k < length (plane (frame s1))
         then s1\<lparr>frame := (frame s1)\<lparr>plane :=
                  (plane (frame s1))[k := (plane (frame s1) ! k)
                     \<lparr>fd := d, plane_size := sz, offset := off, pitch := stride\<rparr>]\<rparr>\<rparr>
         else s1\<lparr>out_of_bounds := True\<rparr>)"

definition dmabuf_on_done ::
  "(dmabuf_capture \<Rightarrow> dmabuf_capture) \<Rightarrow> dmabuf_capture \<Rightarrow> dmabuf_capture" where
  "dmabuf_on_done cb self = cb (dmabuf_do [On_done (status (fc self))] self)"


definition dmabuf_capture_start :: "nat option \<Rightarrow> dmabuf_capture \<Rightarrow> int \<times> dmabuf_capture" where
  "dmabuf_capture_start new_frame self =
     (let s1 = dmabuf_do [Export_dmabuf_capture_output] (self\<lparr>zwlr_frame := new_frame\<rparr>)
      in case new_frame of
           None \<Rightarrow> (- 1, s1)
         | Some f \<Rightarrow>
             (0, dmabuf_do [Export_dmabuf_frame_add_listener f]
                   (dmabuf_set_status CAPTURE_IN_PROGRESS s1)))"



definition dmabuf_frame_cancel ::
  "(dmabuf_capture \<Rightarrow> dmabuf_capture) \<Rightarrow> u32 \<Rightarrow> dmabuf_capture \<Rightarrow> dmabuf_capture" where
  "dmabuf_frame_cancel cb reason self =
     (let s1 = dmabuf_capture_stop self;
          s2 = dmabuf_set_status
                 (if reason = ZWLR_EXPORT_DMABUF_FRAME_V1_CANCEL_REASON_PERMANENT
                  then CAPTURE_FATAL else CAPTURE_FAILED) s1;
          s3 = dmabuf_on_done cb s2
      in dmabuf_close_fds s3)"

section \<open>Concrete inputs\<close>

text \<open>
  A keymap with four keys of a US layout, two levels each (level 1 needs Shift, mask 1):
  \<open>q Q\<close> on key code 24, \<open>a A\<close> on 38, \<open>, <\<close> on 59 and \<open>< >\<close> on 94, so that the symbol
  \<open><\<close> (0x3c) has two entries. \<open>keymap_repeat\<close> has a single key whose only level
  lists the symbol \<open>a\<close> twice.
\<close>

definition alloc_always :: "nat \<Rightarrow> bool" where
  "alloc_always n = True"

definition example_levels :: "u32 \<Rightarrow> u32 list list" where
  "example_levels cd =
     (if cd = 24 then [[0x71], [0x51]]
      else if cd = 38 then [[0x61], [0x41]]
      else if cd = 59 then [[0x2c], [0x3c]]
      else if cd = 94 then [[0x3c], [0x3e]]
      else [])"

definition example_mods :: "u32 \<Rightarrow> u32 \<Rightarrow> u32 list" where
  "example_mods cd lvl = (if lvl = 1 then [1] else [0])"

definition example_keymap :: xkb_keymap where
  "example_keymap =
     \<lparr>km_codes = [24, 38, 59, 94], km_levels = example_levels, km_mods = example_mods\<rparr>"

definition repeat_levels :: "u32 \<Rightarrow> u32 list list" where
  "repeat_levels cd = (if cd = 38 then [[0x61, 0x61]] else [])"

definition keymap_repeat :: xkb_keymap where
  "keymap_repeat = \<lparr>km_codes = [38], km_levels = repeat_levels, km_mods = example_mods\<rparr>"

definition keyboard_new :: "xkb_keymap \<Rightarrow> keyboard" where
  "keyboard_new km =
     \<lparr>keymap = km, lookup_table = [], lookup_table_size = 0, key_state = {}\<rparr>"

definition example_keyboard :: keyboard where
  "example_keyboard =
     snd (create_lookup_table alloc_always insertion_qsort (keyboard_new example_keymap))"

text \<open>
  The capture backends as zeroed structs, an \<open>on_done\<close> that does nothing, an environment
  in which every allocation succeeds, and two \<open>buffer\<close> events of different geometry.
\<close>

definition frame_capture_zeroed :: frame_capture where
  "frame_capture_zeroed =
     \<lparr>status = CAPTURE_STOPPED,
      frame_info = \<lparr>fourcc_format = 0, fi_width = 0, fi_height = 0, fi_stride = 0\<rparr>,
      damage_hint = \<lparr>dh_x = 0, dh_y = 0, dh_width = 0, dh_height = 0\<rparr>\<rparr>"


definition on_done_nothing :: "'a \<Rightarrow> 'a" where
  "on_done_nothing self = self"




definition plane_zeroed :: dmabuf_plane where
  "plane_zeroed = \<lparr>fd = 0, offset = 0, plane_size = 0, pitch = 0, modifier = 0\<rparr>"

definition dmabuf_zeroed :: dmabuf_capture where
  "dmabuf_zeroed =
     \<lparr>fc = frame_capture_zeroed, zwlr_frame = None,
      frame = \<lparr>width = 0, height = 0, format = 0, n_planes = 0,
               plane = [plane_zeroed, plane_zeroed, plane_zeroed, plane_zeroed]\<rparr>,
      last_time = 0, timer = \<lparr>started = False, duration = 0\<rparr>, effects = [],
      open_fds = {}, out_of_bounds = False\<rparr>"

text \<open>
  The DMA-BUF backend after a first \<open>start\<close>, and after the compositor has announced a
  frame of one object and handed over its descriptor 5.
\<close>

definition dmabuf_started :: dmabuf_capture where
  "dmabuf_started = snd (dmabuf_capture_start (Some 1) dmabuf_zeroed)"

definition dmabuf_with_object :: dmabuf_capture where
  "dmabuf_with_object =
     dmabuf_frame_object 5 16384 0 256 0 (dmabuf_frame_start 64 64 DRM_FORMAT_XRGB8888 0 0 1
       dmabuf_started)"





section \<open>Sorting and searching\<close>

lemma compare_symbols_le_iff:
  "compare_symbols a b \<le> 0 \<longleftrightarrow>
     symbol a < symbol b \<or> (symbol a = symbol b \<and> level a \<le> level b)"
  by (auto simp: compare_symbols_def)

lemma compare_symbols2_sign:
  "compare_symbols2 k e < 0 \<longleftrightarrow> symbol k < symbol e"
  "0 < compare_symbols2 k e \<longleftrightarrow> symbol e < symbol k"
  "compare_symbols2 k e = 0 \<longleftrightarrow> symbol k = symbol e"
  by (auto simp: compare_symbols2_def)

lemma mset_insort_cmp: "mset (insort_cmp cmp x xs) = add_mset x (mset xs)"
  by (induction xs) auto

lemma set_insort_cmp: "set (insort_cmp cmp x xs) = insert x (set xs)"
  by (induction xs) auto

lemma mset_insertion_qsort: "mset (insertion_qsort cmp xs) = mset xs"
  by (induction xs) (auto simp: insertion_qsort_def mset_insort_cmp)

lemma sorted_insort_cmp:
  assumes tr: "\<And>a b c. cmp a b \<le> 0 \<Longrightarrow> cmp b c \<le> 0 \<Longrightarrow> cmp a c \<le> 0"
    and tot: "\<And>a b. cmp a b \<le> 0 \<or> cmp b a \<le> 0"
    and srt: "sorted_wrt (\<lambda>a b. cmp a b \<le> 0) xs"
  shows "sorted_wrt (\<lambda>a b. cmp a b \<le> 0) (insort_cmp cmp x xs)"
  using srt
proof (induction xs)
  case Nil
  then show ?case by simp
next
  case (Cons y ys)
  show ?case
  proof (cases "cmp x y \<le> 0")
    case True
    with Cons.prems tr show ?thesis by auto
  next
    case False
    with tot have "cmp y x \<le> 0" by blast
    with False Cons show ?thesis by (auto simp: set_insort_cmp)
  qed
qed

lemma sorted_insertion_qsort:
  assumes tr: "\<And>a b c. cmp a b \<le> 0 \<Longrightarrow> cmp b c \<le> 0 \<Longrightarrow> cmp a c \<le> 0"
    and tot: "\<And>a b. cmp a b \<le> 0 \<or> cmp b a \<le> 0"
  shows "sorted_wrt (\<lambda>a b. cmp a b \<le> 0) (insertion_qsort cmp xs)"
proof (induction xs)
  case Nil
  then show ?case by (simp add: insertion_qsort_def)
next
  case (Cons x xs)
  have "insertion_qsort cmp (x # xs) = insort_cmp cmp x (insertion_qsort cmp xs)"
    by (simp add: insertion_qsort_def)
  with Cons sorted_insort_cmp [of cmp, OF tr tot] show ?case by simp
qed

lemma insertion_qsort_sorts: "qsort_sorts insertion_qsort compare_symbols"
  unfolding qsort_sorts_def
proof (intro allI conjI)
  fix xs :: "table_entry list"
  show "mset (insertion_qsort compare_symbols xs) = mset xs"
    by (rule mset_insertion_qsort)
  show "sorted_wrt (\<lambda>a b. compare_symbols a b \<le> 0) (insertion_qsort compare_symbols xs)"
  proof (rule sorted_insertion_qsort)
    fix a b c :: table_entry
    assume "compare_symbols a b \<le> 0" "compare_symbols b c \<le> 0"
    then show "compare_symbols a c \<le> 0"
      unfolding compare_symbols_le_iff by auto
  next
    fix a b :: table_entry
    show "compare_symbols a b \<le> 0 \<or> compare_symbols b a \<le> 0"
      unfolding compare_symbols_le_iff by auto
  qed
qed

lemma sorted_wrt_compare_symbols:
  "sorted_wrt (\<lambda>a b. compare_symbols a b \<le> 0) t = table_sorted t"
  by (simp add: table_sorted_def compare_symbols_le_iff)

lemma bsearch_range_Some:
  "bsearch_range cmp key xs l u = Some i \<Longrightarrow> l \<le> i \<and> i < u \<and> cmp key (xs ! i) = 0"
proof (induction cmp key xs l u rule: bsearch_range.induct)
  case (1 cmp key xs l u)
  show ?case
  proof (cases "l < u")
    case False
    with "1.prems" show ?thesis by simp
  next
    case lu: True
    define idx where "idx = (l + u) div 2"
    define c where "c = cmp key (xs ! idx)"
    have bounds: "l \<le> idx" "idx < u" using lu by (auto simp: idx_def)
    consider (lt) "c < 0" | (gt) "0 < c" | (eq) "c = 0" by linarith
    then show ?thesis
    proof cases
      case lt
      with "1.prems" lu have "bsearch_range cmp key xs l idx = Some i"
        by (simp add: idx_def c_def Let_def)
      with "1.IH"(1) [OF lu idx_def c_def] lt bounds
      show ?thesis by (auto simp: idx_def c_def)
    next
      case gt
      with "1.prems" lu have "bsearch_range cmp key xs (idx + 1) u = Some i"
        by (simp add: idx_def c_def Let_def)
      with "1.IH"(2) [of idx c] gt bounds lu
      show ?thesis by (auto simp: idx_def c_def)
    next
      case eq
      with "1.prems" lu have "i = idx" by (simp add: idx_def c_def Let_def)
      with eq bounds show ?thesis by (simp add: c_def)
    qed
  qed
qed

lemma bsearch_range_None:
  "bsearch_partitioned cmp key xs \<Longrightarrow> u \<le> length xs \<Longrightarrow>
   bsearch_range cmp key xs l u = None \<Longrightarrow> l \<le> i \<Longrightarrow> i < u \<Longrightarrow> cmp key (xs ! i) \<noteq> 0"
proof (induction cmp key xs l u rule: bsearch_range.induct)
  case (1 cmp key xs l u)
  from "1.prems" have lu: "l < u" by simp
  define idx where "idx = (l + u) div 2"
  define c where "c = cmp key (xs ! idx)"
  have bounds: "l \<le> idx" "idx < u" using lu by (auto simp: idx_def)
  have part: "\<And>a b. a < b \<Longrightarrow> b < length xs \<Longrightarrow>
      (cmp key (xs ! a) < 0 \<longrightarrow> cmp key (xs ! b) < 0) \<and>
      (0 < cmp key (xs ! b) \<longrightarrow> 0 < cmp key (xs ! a))"
    using "1.prems"(1) by (simp add: bsearch_partitioned_def)
  consider (lt) "c < 0" | (gt) "0 < c" | (eq) "c = 0" by linarith
  then show ?case
  proof cases
    case lt
    with "1.prems" lu have rec: "bsearch_range cmp key xs l idx = None"
      by (simp add: idx_def c_def Let_def)
    show ?thesis
    proof (cases "i < idx")
      case True
      with "1.IH"(1) [of idx c] lt lu rec "1.prems" bounds show ?thesis
        by (simp add: idx_def c_def)
    next
      case False
      then have "i = idx \<or> idx < i" by auto
      with part [of idx i] lt "1.prems" show ?thesis
        by (auto simp: c_def)
    qed
  next
    case gt
    with "1.prems" lu have rec: "bsearch_range cmp key xs (idx + 1) u = None"
      by (simp add: idx_def c_def Let_def)
    show ?thesis
    proof (cases "idx < i")
      case True
      with "1.IH"(2) [of idx c] gt lu rec "1.prems" bounds show ?thesis
        by (simp add: idx_def c_def)
    next
      case False
      then have "i = idx \<or> i < idx" by auto
      with part [of i idx] gt "1.prems" bounds show ?thesis
        by (auto simp: c_def)
    qed
  next
    case eq
    with "1.prems" lu show ?thesis by (simp add: idx_def c_def Let_def)
  qed
qed

lemma binary_bsearch_finds: "bsearch_finds binary_bsearch cmp"
  unfolding bsearch_finds_def
proof (intro allI impI)
  fix key :: 'a and xs :: "'a list"
  assume part: "bsearch_partitioned cmp key xs"
  show "case binary_bsearch cmp key xs of
          None \<Rightarrow> \<forall>i<length xs. cmp key (xs ! i) \<noteq> 0
        | Some i \<Rightarrow> i < length xs \<and> cmp key (xs ! i) = 0"
  proof (cases "binary_bsearch cmp key xs")
    case None
    then have "bsearch_range cmp key xs 0 (length xs) = None"
      by (simp add: binary_bsearch_def)
    with part bsearch_range_None [of cmp key xs "length xs" 0] None show ?thesis
      by simp
  next
    case (Some i)
    then have "bsearch_range cmp key xs 0 (length xs) = Some i"
      by (simp add: binary_bsearch_def)
    from bsearch_range_Some [OF this] Some show ?thesis by simp
  qed
qed

lemma table_sorted_nth:
  "table_sorted t \<Longrightarrow> i < j \<Longrightarrow> j < length t \<Longrightarrow>
     symbol (t ! i) < symbol (t ! j) \<or> (symbol (t ! i) = symbol (t ! j) \<and> level (t ! i) \<le> level (t ! j))"
  by (simp add: table_sorted_def sorted_wrt_iff_nth_less)

lemma table_sorted_symbol_le:
  assumes "table_sorted t" and "i \<le> j" and "j < length t"
  shows "symbol (t ! i) \<le> symbol (t ! j)"
proof (cases "i = j")
  case True
  then show ?thesis by simp
next
  case False
  with assms table_sorted_nth [of t i j] show ?thesis by auto
qed

lemma table_sorted_partitioned:
  assumes "table_sorted t"
  shows "bsearch_partitioned compare_symbols2 k t"
  unfolding bsearch_partitioned_def compare_symbols2_sign
proof (intro allI impI)
  fix i j assume "i < j \<and> j < length t"
  with table_sorted_nth [OF assms, of i j]
  have "symbol (t ! i) \<le> symbol (t ! j)" by auto
  then show "(symbol k < symbol (t ! i) \<longrightarrow> symbol k < symbol (t ! j)) \<and>
             (symbol (t ! j) < symbol k \<longrightarrow> symbol (t ! i) < symbol k)"
    by auto
qed

lemma walk_left_le: "walk_left t s i \<le> i"
  by (induction i) auto

lemma walk_left_symbol:
  "symbol (t ! i) = s \<Longrightarrow> symbol (t ! walk_left t s i) = s"
  by (induction i) auto

lemma walk_left_run:
  "walk_left t s i \<le> k \<Longrightarrow> k < i \<Longrightarrow> symbol (t ! k) = s"
proof (induction i)
  case 0
  then show ?case by simp
next
  case (Suc i)
  show ?case
  proof (cases "symbol (t ! i) = s")
    case True
    with Suc show ?thesis by (cases "k = i") auto
  next
    case False
    with Suc.prems show ?thesis by simp
  qed
qed

lemma walk_left_pred:
  "0 < walk_left t s i \<Longrightarrow> symbol (t ! (walk_left t s i - 1)) \<noteq> s"
  by (induction i) auto

lemma walk_left_first:
  assumes srt: "table_sorted t" and i: "i < length t" and sy: "symbol (t ! i) = s"
    and j: "j < walk_left t s i"
  shows "symbol (t ! j) \<noteq> s"
proof
  assume js: "symbol (t ! j) = s"
  define r where "r = walk_left t s i"
  have r_le: "r \<le> i" by (simp add: r_def walk_left_le)
  have r_pos: "0 < r" using j by (simp add: r_def)
  have pred: "symbol (t ! (r - 1)) \<noteq> s"
    using walk_left_pred [of t s i] r_pos by (simp add: r_def)
  have rs: "symbol (t ! r) = s" using walk_left_symbol [OF sy] by (simp add: r_def)
  have lt: "r - 1 < length t" using r_le i by simp
  have "j \<le> r - 1" using j by (simp add: r_def)
  then have a: "symbol (t ! j) \<le> symbol (t ! (r - 1))"
    using table_sorted_symbol_le [OF srt _ lt] by simp
  have "r < length t" using r_le i by simp
  then have b: "symbol (t ! (r - 1)) \<le> symbol (t ! r)"
    using table_sorted_symbol_le [OF srt, of "r - 1" r] by simp
  from a b js rs pred show False by auto
qed

lemma find_symbol_cases:
  assumes bs: "bsearch_finds bs compare_symbols2" and srt: "table_sorted (lookup_table self)"
  shows "case keyboard_find_symbol bs self symb of
           None \<Rightarrow> \<forall>e \<in> set (lookup_table self). symbol e \<noteq> symb
         | Some r \<Rightarrow> r < length (lookup_table self) \<and> symbol (lookup_table self ! r) = symb \<and>
             (\<forall>j < r. symbol (lookup_table self ! j) \<noteq> symb) \<and>
             (\<forall>e \<in> set (lookup_table self). symbol e = symb \<longrightarrow>
                level (lookup_table self ! r) \<le> level e)"
proof -
  define t where "t = lookup_table self"
  define k where "k = \<lparr>symbol = symb, code = 0, level = 0\<rparr>"
  have part: "bsearch_partitioned compare_symbols2 k t"
    using srt by (simp add: t_def table_sorted_partitioned)
  from bs part have found:
    "case bs compare_symbols2 k t of
       None \<Rightarrow> \<forall>i < length t. compare_symbols2 k (t ! i) \<noteq> 0
     | Some i \<Rightarrow> i < length t \<and> compare_symbols2 k (t ! i) = 0"
    unfolding bsearch_finds_def by blast
  show ?thesis
  proof (cases "bs compare_symbols2 k t")
    case None
    with found have "\<forall>i < length t. symbol (t ! i) \<noteq> symb"
      by (auto simp: compare_symbols2_sign k_def)
    then have "\<forall>e \<in> set t. symbol e \<noteq> symb"
      by (auto simp: in_set_conv_nth)
    with None show ?thesis
      by (simp add: keyboard_find_symbol_def t_def k_def)
  next
    case (Some i)
    with found have i: "i < length t" and sy: "symbol (t ! i) = symb"
      by (auto simp: compare_symbols2_sign k_def)
    define r where "r = walk_left t symb i"
    have res: "keyboard_find_symbol bs self symb = Some r"
      using Some by (simp add: keyboard_find_symbol_def t_def k_def r_def)
    have srt': "table_sorted t" using srt by (simp add: t_def)
    have r_le: "r \<le> i" by (simp add: r_def walk_left_le)
    have r_len: "r < length t" using r_le i by simp
    have r_sym: "symbol (t ! r) = symb" using walk_left_symbol [OF sy] by (simp add: r_def)
    have first: "\<forall>j < r. symbol (t ! j) \<noteq> symb"
      using walk_left_first [OF srt' i sy] by (simp add: r_def)
    have lowest: "\<forall>e \<in> set t. symbol e = symb \<longrightarrow> level (t ! r) \<le> level e"
    proof (intro ballI impI)
      fix e assume "e \<in> set t" and es: "symbol e = symb"
      then obtain m where m: "m < length t" and e: "e = t ! m"
        by (auto simp: in_set_conv_nth)
      from first es e have "\<not> m < r" by auto
      then have "m = r \<or> r < m" by auto
      then show "level (t ! r) \<le> level e"
      proof
        assume "m = r"
        with e show ?thesis by simp
      next
        assume "r < m"
        from table_sorted_nth [OF srt' this m] r_sym es e show ?thesis by auto
      qed
    qed
    from res r_len r_sym first lowest show ?thesis by (simp add: t_def)
  qed
qed

lemma lookup_table_append_entry:
  "\<forall>n. alloc n \<Longrightarrow>
   lookup_table (append_entry alloc s symb cd lvl) =
     lookup_table s @ [\<lparr>symbol = symb, code = cd, level = lvl\<rparr>]"
  by (simp add: append_entry_def Let_def)

lemma lookup_table_fold_symbols:
  "\<forall>n. alloc n \<Longrightarrow>
   lookup_table (fold (\<lambda>symb s'. append_entry alloc s' symb cd lvl) syms s) =
     lookup_table s @ map (\<lambda>symb. \<lparr>symbol = symb, code = cd, level = lvl\<rparr>) syms"
  by (induction syms arbitrary: s) (simp_all add: lookup_table_append_entry)

lemma lookup_table_fold_levels:
  "\<forall>n. alloc n \<Longrightarrow>
   lookup_table (fold (\<lambda>lvl s. fold (\<lambda>symb s'. append_entry alloc s' symb cd (f lvl))
                                   (g lvl) s) lvls s) =
     lookup_table s @
       concat (map (\<lambda>lvl. map (\<lambda>symb. \<lparr>symbol = symb, code = cd, level = f lvl\<rparr>) (g lvl)) lvls)"
  by (induction lvls arbitrary: s) (simp_all add: lookup_table_fold_symbols)

lemma lookup_table_key_iter:
  "\<forall>n. alloc n \<Longrightarrow>
   lookup_table (key_iter alloc km cd s) =
     lookup_table s @
       concat (map (\<lambda>lvl. map (\<lambda>symb. \<lparr>symbol = symb, code = cd, level = int_of_size lvl\<rparr>)
                              (km_levels km cd ! lvl))
                   [0 ..< length (km_levels km cd)])"
  unfolding key_iter_def by (rule lookup_table_fold_levels)

lemma lookup_table_fold_key_iter:
  "\<forall>n. alloc n \<Longrightarrow>
   lookup_table (fold (key_iter alloc km) cds s) =
     lookup_table s @
       concat (map (\<lambda>cd. concat (map (\<lambda>lvl. map (\<lambda>symb. \<lparr>symbol = symb, code = cd,
                                                           level = int_of_size lvl\<rparr>)
                                                (km_levels km cd ! lvl))
                                      [0 ..< length (km_levels km cd)]))
                   cds)"
  by (induction cds arbitrary: s) (simp_all add: lookup_table_key_iter)

lemma create_lookup_table_result:
  assumes "\<forall>n. alloc n"
  shows "create_lookup_table alloc qs self =
           (0, (fold (key_iter alloc (keymap self)) (km_codes (keymap self))
                  (self\<lparr>lookup_table := [], lookup_table_size := 128\<rparr>))
               \<lparr>lookup_table := qs compare_symbols (keymap_triples (keymap self))\<rparr>)"
  using assms by (simp add: create_lookup_table_def Let_def lookup_table_fold_key_iter
      keymap_triples_def)

lemma lookup_table_create:
  assumes "\<forall>n. alloc n"
  shows "fst (create_lookup_table alloc qs self) = 0"
    and "lookup_table (snd (create_lookup_table alloc qs self)) =
           qs compare_symbols (keymap_triples (keymap self))"
  using assms by (simp_all add: create_lookup_table_result)

lemma table_sorted_contiguous:
  assumes srt: "table_sorted t" and ik: "i \<le> k" and kj: "k \<le> j" and j: "j < length t"
    and same: "symbol (t ! i) = symbol (t ! j)"
  shows "symbol (t ! k) = symbol (t ! i) \<and> level (t ! i) \<le> level (t ! k)"
proof -
  have k: "k < length t" using kj j by simp
  have a: "symbol (t ! i) \<le> symbol (t ! k)" by (rule table_sorted_symbol_le [OF srt ik k])
  have b: "symbol (t ! k) \<le> symbol (t ! j)" by (rule table_sorted_symbol_le [OF srt kj j])
  from a b same have eq: "symbol (t ! k) = symbol (t ! i)" by auto
  show ?thesis
  proof (cases "i = k")
    case True
    then show ?thesis by simp
  next
    case False
    with ik have "i < k" by simp
    from table_sorted_nth [OF srt this k] eq show ?thesis by auto
  qed
qed

section \<open>The keyboard on concrete keymaps\<close>

lemma alloc_always_all: "\<forall>n. alloc_always n"
  by (simp add: alloc_always_def)

lemma append_entry_keeps:
  "keymap (append_entry alloc s symb cd lvl) = keymap s \<and>
   key_state (append_entry alloc s symb cd lvl) = key_state s"
  by (simp add: append_entry_def Let_def)

lemma fold_symbols_keeps:
  "keymap (fold (\<lambda>symb s'. append_entry alloc s' symb cd lvl) syms s) = keymap s \<and>
   key_state (fold (\<lambda>symb s'. append_entry alloc s' symb cd lvl) syms s) = key_state s"
  by (induction syms arbitrary: s) (simp_all add: append_entry_keeps)

lemma fold_levels_keeps:
  "keymap (fold (\<lambda>lvl s. fold (\<lambda>symb s'. append_entry alloc s' symb cd (f lvl))
                              (g lvl) s) lvls s) = keymap s \<and>
   key_state (fold (\<lambda>lvl s. fold (\<lambda>symb s'. append_entry alloc s' symb cd (f lvl))
                                 (g lvl) s) lvls s) = key_state s"
  by (induction lvls arbitrary: s) (simp_all add: fold_symbols_keeps)

lemma key_iter_keeps:
  "keymap (key_iter alloc km cd s) = keymap s \<and>
   key_state (key_iter alloc km cd s) = key_state s"
  unfolding key_iter_def by (rule fold_levels_keeps)

lemma fold_key_iter_keeps:
  "keymap (fold (key_iter alloc km) cds s) = keymap s \<and>
   key_state (fold (key_iter alloc km) cds s) = key_state s"
  by (induction cds arbitrary: s) (simp_all add: key_iter_keeps)

lemma create_lookup_table_keeps:
  "keymap (snd (create_lookup_table alloc qs self)) = keymap self \<and>
   key_state (snd (create_lookup_table alloc qs self)) = key_state self"
  by (simp add: create_lookup_table_def Let_def fold_key_iter_keeps)

lemma keymap_example_keyboard: "keymap example_keyboard = example_keymap"
  by (simp add: example_keyboard_def create_lookup_table_keeps keyboard_new_def)

lemma key_state_example_keyboard: "key_state example_keyboard = {}"
  by (simp add: example_keyboard_def create_lookup_table_keeps keyboard_new_def)

lemma keymap_triples_example:
  "keymap_triples example_keymap =
     [\<lparr>symbol = 0x71, code = 24, level = 0\<rparr>, \<lparr>symbol = 0x51, code = 24, level = 1\<rparr>,
      \<lparr>symbol = 0x61, code = 38, level = 0\<rparr>, \<lparr>symbol = 0x41, code = 38, level = 1\<rparr>,
      \<lparr>symbol = 0x2c, code = 59, level = 0\<rparr>, \<lparr>symbol = 0x3c, code = 59, level = 1\<rparr>,
      \<lparr>symbol = 0x3c, code = 94, level = 0\<rparr>, \<lparr>symbol = 0x3e, code = 94, level = 1\<rparr>]"
  by (simp add: keymap_triples_def example_keymap_def example_levels_def int_of_size_def)

lemma lookup_table_example_keyboard:
  "lookup_table example_keyboard =
     [\<lparr>symbol = 0x2c, code = 59, level = 0\<rparr>, \<lparr>symbol = 0x3c, code = 94, level = 0\<rparr>,
      \<lparr>symbol = 0x3c, code = 59, level = 1\<rparr>, \<lparr>symbol = 0x3e, code = 94, level = 1\<rparr>,
      \<lparr>symbol = 0x41, code = 38, level = 1\<rparr>, \<lparr>symbol = 0x51, code = 24, level = 1\<rparr>,
      \<lparr>symbol = 0x61, code = 38, level = 0\<rparr>, \<lparr>symbol = 0x71, code = 24, level = 0\<rparr>]"
  by (simp add: example_keyboard_def lookup_table_create [OF alloc_always_all] keyboard_new_def
      keymap_triples_example insertion_qsort_def compare_symbols_def)

lemma table_sorted_example_keyboard: "table_sorted (lookup_table example_keyboard)"
  by (simp add: lookup_table_example_keyboard table_sorted_def)

lemma find_example_less: "keyboard_find_symbol binary_bsearch example_keyboard 0x3c = Some 1"
  by (simp add: keyboard_find_symbol_def binary_bsearch_def lookup_table_example_keyboard
      compare_symbols2_def Let_def)

lemma find_example_A: "keyboard_find_symbol binary_bsearch example_keyboard 0x41 = Some 4"
  by (simp add: keyboard_find_symbol_def binary_bsearch_def lookup_table_example_keyboard
      compare_symbols2_def Let_def)

lemma find_example_missing: "keyboard_find_symbol binary_bsearch example_keyboard 0x62 = None"
  by (simp add: keyboard_find_symbol_def binary_bsearch_def lookup_table_example_keyboard
      compare_symbols2_def Let_def)

section \<open>Properties of keyboard.c\<close>

lemma find_symbol_key_state:
  "keyboard_find_symbol bs (self\<lparr>key_state := ks\<rparr>) symb = keyboard_find_symbol bs self symb"
  by (simp add: keyboard_find_symbol_def cong: option.case_cong)

lemma keyboard_feed_same:
  assumes "keyboard_find_symbol bs self symb = Some i"
    and "is_pressed = intset_is_set (key_state self) (code (lookup_table self ! i))"
  shows "keyboard_feed bs self symb is_pressed = (self, [])"
  using assms by (simp add: keyboard_feed_def Let_def)

lemma keyboard_feed_change:
  assumes "keyboard_find_symbol bs self symb = Some i"
    and "is_pressed \<noteq> intset_is_set (key_state self) (code (lookup_table self ! i))"
  shows "keyboard_feed bs self symb is_pressed =
           (self\<lparr>key_state :=
               (if is_pressed then intset_set (key_state self) (code (lookup_table self ! i))
                else intset_clear (key_state self) (code (lookup_table self ! i)))\<rparr>,
            [Virtual_keyboard_modifiers 0
               (case km_mods (keymap self) (code (lookup_table self ! i))
                      (word_of_int (level (lookup_table self ! i))) of
                 [] \<Rightarrow> 0
               | m # _ \<Rightarrow> m) 0 0,
             Virtual_keyboard_key 0 (code (lookup_table self ! i) - 8)
               (if is_pressed then WL_KEYBOARD_KEY_STATE_PRESSED
                else WL_KEYBOARD_KEY_STATE_RELEASED)])"
  using assms by (auto simp: keyboard_feed_def Let_def)

lemma keyboard_feed_press_twice:
  assumes f: "keyboard_find_symbol bs self symb = Some i"
  shows "keyboard_feed bs (fst (keyboard_feed bs self symb True)) symb True =
           (fst (keyboard_feed bs self symb True), [])"
proof (cases "intset_is_set (key_state self) (code (lookup_table self ! i))")
  case True
  then have "keyboard_feed bs self symb True = (self, [])"
    using keyboard_feed_same [OF f, of True] by simp
  then show ?thesis by simp
next
  case False
  define s1 where "s1 = self\<lparr>key_state :=
      intset_set (key_state self) (code (lookup_table self ! i))\<rparr>"
  from False have "keyboard_feed bs self symb True =
      (s1, [Virtual_keyboard_modifiers 0 (case km_mods (keymap self) (code (lookup_table self ! i))
                      (word_of_int (level (lookup_table self ! i))) of
                 [] \<Rightarrow> 0
               | m # _ \<Rightarrow> m) 0 0,
            Virtual_keyboard_key 0 (code (lookup_table self ! i) - 8)
              WL_KEYBOARD_KEY_STATE_PRESSED])"
    using keyboard_feed_change [OF f, of True] by (simp add: s1_def)
  then have fst1: "fst (keyboard_feed bs self symb True) = s1" by simp
  have f1: "keyboard_find_symbol bs s1 symb = Some i"
    using f by (simp add: s1_def find_symbol_key_state)
  have "intset_is_set (key_state s1) (code (lookup_table s1 ! i))"
    by (simp add: s1_def intset_is_set_def intset_set_def)
  then have "keyboard_feed bs s1 symb True = (s1, [])"
    using keyboard_feed_same [OF f1, of True] by simp
  with fst1 show ?thesis by simp
qed

text \<open>
  Claim C6. \<open>keyboard_feed\<close> is idempotent with respect to the press state. For a symbol
  that resolves to the entry at index \<open>i\<close>: when the requested flag equals the membership
  of the entry's code in the key state set, the call sends nothing and returns the keyboard
  unchanged. A second \<open>feed(symbol, true)\<close> right after a first one is such a call, so it
  sends nothing; and when the code was released before the first of the two, exactly one
  key-press event has been sent by the two calls together.
\<close>

theorem keyboard_feed_idempotent:
  assumes f: "keyboard_find_symbol bs self symb = Some i"
  shows "(is_pressed = intset_is_set (key_state self) (code (lookup_table self ! i)) \<longrightarrow>
            keyboard_feed bs self symb is_pressed = (self, [])) \<and>
         keyboard_feed bs (fst (keyboard_feed bs self symb True)) symb True =
           (fst (keyboard_feed bs self symb True), []) \<and>
         (\<not> intset_is_set (key_state self) (code (lookup_table self ! i)) \<longrightarrow>
            length (filter is_key_press
              (snd (keyboard_feed bs self symb True) @
               snd (keyboard_feed bs (fst (keyboard_feed bs self symb True)) symb True))) = 1)"
proof (intro conjI impI)
  assume "is_pressed = intset_is_set (key_state self) (code (lookup_table self ! i))"
  then show "keyboard_feed bs self symb is_pressed = (self, [])"
    by (rule keyboard_feed_same [OF f])
next
  show "keyboard_feed bs (fst (keyboard_feed bs self symb True)) symb True =
          (fst (keyboard_feed bs self symb True), [])"
    by (rule keyboard_feed_press_twice [OF f])
next
  assume "\<not> intset_is_set (key_state self) (code (lookup_table self ! i))"
  then have "snd (keyboard_feed bs self symb True) =
      [Virtual_keyboard_modifiers 0 (case km_mods (keymap self) (code (lookup_table self ! i))
                      (word_of_int (level (lookup_table self ! i))) of
                 [] \<Rightarrow> 0
               | m # _ \<Rightarrow> m) 0 0,
       Virtual_keyboard_key 0 (code (lookup_table self ! i) - 8) WL_KEYBOARD_KEY_STATE_PRESSED]"
    using keyboard_feed_change [OF f, of True] by simp
  then show "length (filter is_key_press
      (snd (keyboard_feed bs self symb True) @
       snd (keyboard_feed bs (fst (keyboard_feed bs self symb True)) symb True))) = 1"
    by (simp add: keyboard_feed_press_twice [OF f] is_key_press_def)
qed

theorem keyboard_feed_idempotent_witness:
  "keyboard_feed binary_bsearch example_keyboard 0x41 False = (example_keyboard, []) \<and>
   keyboard_feed binary_bsearch (fst (keyboard_feed binary_bsearch example_keyboard 0x41 True))
       0x41 True =
     (fst (keyboard_feed binary_bsearch example_keyboard 0x41 True), []) \<and>
   length (filter is_key_press
     (snd (keyboard_feed binary_bsearch example_keyboard 0x41 True) @
      snd (keyboard_feed binary_bsearch
             (fst (keyboard_feed binary_bsearch example_keyboard 0x41 True)) 0x41 True))) = 1"
proof -
  have released:
    "\<not> intset_is_set (key_state example_keyboard) (code (lookup_table example_keyboard ! 4))"
    "False = intset_is_set (key_state example_keyboard) (code (lookup_table example_keyboard ! 4))"
    by (simp_all add: key_state_example_keyboard intset_is_set_def)
  from keyboard_feed_idempotent [OF find_example_A, of False] released
  show ?thesis by blast
qed

text \<open>
  Claim C7. A \<open>keyboard_feed\<close> call that resolves its symbol and changes the press state
  sends exactly two requests, in this order: \<open>modifiers\<close> with \<open>depressed = locked = group
  = 0\<close> and with \<open>latched\<close> the modifier mask the keymap gives for the entry's code and
  level (the first mask of \<open>km_mods\<close> there, 0 when it gives none), then \<open>key\<close> with the
  code minus 8 (in \<open>uint32_t\<close>) and the requested state.
\<close>

theorem keyboard_feed_events:
  assumes "keyboard_find_symbol bs self symb = Some i"
    and "is_pressed \<noteq> intset_is_set (key_state self) (code (lookup_table self ! i))"
  shows "snd (keyboard_feed bs self symb is_pressed) =
           [Virtual_keyboard_modifiers 0
              (case km_mods (keymap self) (code (lookup_table self ! i))
                      (word_of_int (level (lookup_table self ! i))) of
                 [] \<Rightarrow> 0
               | m # _ \<Rightarrow> m) 0 0,
            Virtual_keyboard_key 0 (code (lookup_table self ! i) - 8)
              (if is_pressed then WL_KEYBOARD_KEY_STATE_PRESSED
               else WL_KEYBOARD_KEY_STATE_RELEASED)]"
  using keyboard_feed_change [OF assms] by simp

theorem keyboard_feed_events_witness:
  "snd (keyboard_feed binary_bsearch example_keyboard 0x41 True) =
     [Virtual_keyboard_modifiers 0 1 0 0,
      Virtual_keyboard_key 0 30 WL_KEYBOARD_KEY_STATE_PRESSED]"
  using keyboard_feed_events [OF find_example_A, of True]
  by (simp add: key_state_example_keyboard intset_is_set_def lookup_table_example_keyboard
      keymap_example_keyboard example_keymap_def example_mods_def)

text \<open>
  Claim C5. On a table in the order of \<open>create_lookup_table\<close>, \<open>keyboard_find_symbol\<close>
  returns none when no entry has the symbol, and otherwise the entry of lowest index with
  the symbol, whose level is the lowest among the entries with the symbol.
\<close>

theorem keyboard_find_symbol_first:
  assumes "bsearch_finds bs compare_symbols2" and "table_sorted (lookup_table self)"
  shows "((\<forall>e \<in> set (lookup_table self). symbol e \<noteq> symb) \<longrightarrow>
            keyboard_find_symbol bs self symb = None) \<and>
         ((\<exists>e \<in> set (lookup_table self). symbol e = symb) \<longrightarrow>
            (\<exists>r. keyboard_find_symbol bs self symb = Some r \<and>
                 r < length (lookup_table self) \<and>
                 symbol (lookup_table self ! r) = symb \<and>
                 (\<forall>j < r. symbol (lookup_table self ! j) \<noteq> symb) \<and>
                 (\<forall>e \<in> set (lookup_table self). symbol e = symb \<longrightarrow>
                    level (lookup_table self ! r) \<le> level e)))"
proof (cases "keyboard_find_symbol bs self symb")
  case None
  with find_symbol_cases [OF assms, of symb] show ?thesis by simp
next
  case (Some r)
  with find_symbol_cases [OF assms, of symb]
  have r: "r < length (lookup_table self)" "symbol (lookup_table self ! r) = symb"
    and first: "\<forall>j < r. symbol (lookup_table self ! j) \<noteq> symb"
    and low: "\<forall>e \<in> set (lookup_table self). symbol e = symb \<longrightarrow>
                level (lookup_table self ! r) \<le> level e"
    by simp_all
  from r have "\<exists>e \<in> set (lookup_table self). symbol e = symb"
    using nth_mem by blast
  with Some r first low show ?thesis by blast
qed

theorem keyboard_find_symbol_first_witness:
  "keyboard_find_symbol binary_bsearch example_keyboard 0x3c = Some 1 \<and>
   symbol (lookup_table example_keyboard ! 1) = 0x3c \<and>
   symbol (lookup_table example_keyboard ! 0) \<noteq> 0x3c \<and>
   level (lookup_table example_keyboard ! 1) \<le> level (lookup_table example_keyboard ! 2) \<and>
   keyboard_find_symbol binary_bsearch example_keyboard 0x62 = None"
  using keyboard_find_symbol_first [OF binary_bsearch_finds table_sorted_example_keyboard, of "0x3c"]
    keyboard_find_symbol_first [OF binary_bsearch_finds table_sorted_example_keyboard, of "0x62"]
  by (simp add: lookup_table_example_keyboard find_example_less)

text \<open>
  Claim C4, as amended. When no allocation fails, \<open>create_lookup_table\<close> returns 0 and
  leaves a table that is sorted by symbol and then level, in which the entries of one symbol
  are contiguous with the lowest level first, and which is a rearrangement of the entries
  appended for the keymap: one entry for each occurrence of a symbol in a level of a key.
  So it holds exactly one entry per (symbol, code, level) triple when no triple occurs twice
  in the keymap.
\<close>

theorem create_lookup_table_sorted:
  assumes qs: "qsort_sorts qs compare_symbols" and al: "\<forall>n. alloc n"
    and res: "create_lookup_table alloc qs self = (rc, self')"
  shows "rc = 0 \<and> table_sorted (lookup_table self') \<and>
         (\<forall>i k j. i \<le> k \<and> k \<le> j \<and> j < length (lookup_table self') \<and>
                  symbol (lookup_table self' ! i) = symbol (lookup_table self' ! j) \<longrightarrow>
                  symbol (lookup_table self' ! k) = symbol (lookup_table self' ! i) \<and>
                  level (lookup_table self' ! i) \<le> level (lookup_table self' ! k)) \<and>
         mset (lookup_table self') = mset (keymap_triples (keymap self)) \<and>
         (distinct (keymap_triples (keymap self)) \<longrightarrow>
            distinct (lookup_table self') \<and>
            set (lookup_table self') = set (keymap_triples (keymap self)))"
proof -
  define t where "t = lookup_table self'"
  have rc: "rc = 0"
    using lookup_table_create(1) [OF al, of qs self] res by simp
  have t_eq: "t = qs compare_symbols (keymap_triples (keymap self))"
    using lookup_table_create(2) [OF al, of qs self] res by (simp add: t_def)
  from qs have perm: "mset t = mset (keymap_triples (keymap self))"
    and srt: "table_sorted t"
    by (simp_all add: qsort_sorts_def t_eq sorted_wrt_compare_symbols [symmetric])
  have contiguous: "\<forall>i k j. i \<le> k \<and> k \<le> j \<and> j < length t \<and>
      symbol (t ! i) = symbol (t ! j) \<longrightarrow>
      symbol (t ! k) = symbol (t ! i) \<and> level (t ! i) \<le> level (t ! k)"
    using table_sorted_contiguous [OF srt] by blast
  have once: "distinct (keymap_triples (keymap self)) \<longrightarrow>
      distinct t \<and> set t = set (keymap_triples (keymap self))"
    using perm mset_eq_imp_distinct_iff [OF perm] mset_eq_setD [OF perm] by simp
  from rc srt contiguous perm once show ?thesis
    unfolding t_def by blast
qed

theorem create_lookup_table_sorted_witness:
  "fst (create_lookup_table alloc_always insertion_qsort (keyboard_new example_keymap)) = 0 \<and>
   table_sorted (lookup_table example_keyboard) \<and>
   mset (lookup_table example_keyboard) = mset (keymap_triples example_keymap) \<and>
   distinct (lookup_table example_keyboard) \<and>
   set (lookup_table example_keyboard) = set (keymap_triples example_keymap) \<and>
   symbol (lookup_table example_keyboard ! 2) = symbol (lookup_table example_keyboard ! 1) \<and>
   level (lookup_table example_keyboard ! 1) \<le> level (lookup_table example_keyboard ! 2)"
proof -
  have res: "create_lookup_table alloc_always insertion_qsort (keyboard_new example_keymap) =
      (fst (create_lookup_table alloc_always insertion_qsort (keyboard_new example_keymap)),
       example_keyboard)"
    by (simp add: example_keyboard_def)
  have d: "distinct (keymap_triples (keymap (keyboard_new example_keymap)))"
    by (simp add: keyboard_new_def keymap_triples_example)
  have k: "keymap (keyboard_new example_keymap) = example_keymap"
    by (simp add: keyboard_new_def)
  from create_lookup_table_sorted [OF insertion_qsort_sorts alloc_always_all res] d k
  show ?thesis by (simp add: lookup_table_example_keyboard)
qed

text \<open>
  Claim C4 as stated fails on the code: a level that lists a symbol twice gives two entries
  for one (symbol, code, level) triple.
\<close>

theorem create_lookup_table_repeat_counterexample:
  "lookup_table (snd (create_lookup_table alloc_always insertion_qsort
                        (keyboard_new keymap_repeat))) =
     [\<lparr>symbol = 0x61, code = 38, level = 0\<rparr>, \<lparr>symbol = 0x61, code = 38, level = 0\<rparr>] \<and>
   count_list (lookup_table (snd (create_lookup_table alloc_always insertion_qsort
                                    (keyboard_new keymap_repeat))))
     \<lparr>symbol = 0x61, code = 38, level = 0\<rparr> = 2"
  by (simp add: lookup_table_create [OF alloc_always_all] keyboard_new_def keymap_triples_def
      keymap_repeat_def repeat_levels_def int_of_size_def insertion_qsort_def
      compare_symbols_def)

section \<open>Properties of screencopy.c\<close>







lemma screencopy_start_in_progress:
  "status (frame_capture self) = CAPTURE_IN_PROGRESS \<Longrightarrow>
     screencopy_start time_left now_capture new_frame self = (- 1, self)"
  by (simp add: screencopy_start_def)





section \<open>Properties of dmabuf.c\<close>

lemma close_fd_fields:
  "fc (close_fd d s) = fc s" "zwlr_frame (close_fd d s) = zwlr_frame s"
  "frame (close_fd d s) = frame s" "last_time (close_fd d s) = last_time s"
  "timer (close_fd d s) = timer s" "out_of_bounds (close_fd d s) = out_of_bounds s"
  "open_fds (close_fd d s) = open_fds s - {d}"
  "effects (close_fd d s) = effects s @ [Close d]"
  by (simp_all add: close_fd_def dmabuf_do_def)

lemma close_loop_keeps:
  "fc (fold (\<lambda>i s. if i < length (plane (frame s)) then close_fd (fd (plane (frame s) ! i)) s
                      else s\<lparr>out_of_bounds := True\<rparr>) is s) = fc s \<and>
   zwlr_frame (fold (\<lambda>i s. if i < length (plane (frame s))
                            then close_fd (fd (plane (frame s) ! i)) s
                            else s\<lparr>out_of_bounds := True\<rparr>) is s) = zwlr_frame s \<and>
   frame (fold (\<lambda>i s. if i < length (plane (frame s)) then close_fd (fd (plane (frame s) ! i)) s
                         else s\<lparr>out_of_bounds := True\<rparr>) is s) = frame s \<and>
   last_time (fold (\<lambda>i s. if i < length (plane (frame s))
                           then close_fd (fd (plane (frame s) ! i)) s
                           else s\<lparr>out_of_bounds := True\<rparr>) is s) = last_time s \<and>
   timer (fold (\<lambda>i s. if i < length (plane (frame s)) then close_fd (fd (plane (frame s) ! i)) s
                         else s\<lparr>out_of_bounds := True\<rparr>) is s) = timer s"
  by (induction "is" arbitrary: s) (simp_all add: close_fd_fields)


lemma dmabuf_close_fds_fields:
  "fc (dmabuf_close_fds s) = fc s" "zwlr_frame (dmabuf_close_fds s) = zwlr_frame s"
  "last_time (dmabuf_close_fds s) = last_time s" "timer (dmabuf_close_fds s) = timer s"
  "frame (dmabuf_close_fds s) = (frame s)\<lparr>n_planes := 0\<rparr>"
  by (simp_all add: dmabuf_close_fds_def Let_def close_loop_keeps)






lemma dmabuf_frame_cancel_unfold:
  "dmabuf_frame_cancel cb reason s =
     dmabuf_close_fds (cb (dmabuf_do
       [On_done (if reason = ZWLR_EXPORT_DMABUF_FRAME_V1_CANCEL_REASON_PERMANENT
                 then CAPTURE_FATAL else CAPTURE_FAILED)]
       (dmabuf_set_status (if reason = ZWLR_EXPORT_DMABUF_FRAME_V1_CANCEL_REASON_PERMANENT
                           then CAPTURE_FATAL else CAPTURE_FAILED)
          (dmabuf_capture_stop s))))"
  by (simp add: dmabuf_frame_cancel_def dmabuf_on_done_def dmabuf_set_status_def Let_def)



lemma last_time_dmabuf_capture_stop: "last_time (dmabuf_capture_stop s) = last_time s"
  by (simp add: dmabuf_capture_stop_def aml_stop_def Let_def dmabuf_set_status_def
      dmabuf_do_def dmabuf_close_fds_fields split: option.split)



lemma dmabuf_capture_start_any_status:
  "dmabuf_capture_start (Some f) s =
     (0, dmabuf_do [Export_dmabuf_frame_add_listener f]
           (dmabuf_set_status CAPTURE_IN_PROGRESS
              (dmabuf_do [Export_dmabuf_capture_output] (s\<lparr>zwlr_frame := Some f\<rparr>))))"
  by (simp add: dmabuf_capture_start_def Let_def)

text \<open>
  Claim C2. The SHM backend's \<open>start\<close> fails fast while the status is IN_PROGRESS
  (\<open>screencopy_start_in_progress\<close> above). \<open>dmabuf_capture_start\<close> has no such test:
  called on the DMA-BUF backend whose status is IN_PROGRESS after a first \<open>start\<close>, it
  sends a second capture request, replaces the frame object of the first and returns 0.
\<close>

theorem dmabuf_capture_start_while_in_progress:
  "status (fc dmabuf_started) = CAPTURE_IN_PROGRESS \<and>
   zwlr_frame dmabuf_started = Some 1 \<and>
   fst (dmabuf_capture_start (Some 2) dmabuf_started) = 0 \<and>
   zwlr_frame (snd (dmabuf_capture_start (Some 2) dmabuf_started)) = Some 2 \<and>
   effects (snd (dmabuf_capture_start (Some 2) dmabuf_started)) =
     effects dmabuf_started @ [Export_dmabuf_capture_output, Export_dmabuf_frame_add_listener 2]"
  by (simp add: dmabuf_started_def dmabuf_capture_start_def dmabuf_zeroed_def dmabuf_do_def
      dmabuf_set_status_def Let_def)

text \<open>
  Claim C8. For every \<open>cancel\<close> event of the DMA-BUF backend there is one state \<open>s1\<close> on
  which \<open>on_done\<close>, whatever it is, is called: its status is FATAL exactly when the reason
  is PERMANENT and FAILED exactly when it is not, and the effects of \<open>s1\<close> are those of
  \<open>stop\<close> followed by the call of \<open>on_done\<close> with that status, so the status is set before
  \<open>on_done\<close> runs.
  The handler ends with \<open>dmabuf_close_fds\<close>, which keeps the status \<open>on_done\<close> leaves.
\<close>

theorem dmabuf_frame_cancel_status:
  "\<exists>s1. (\<forall>cb. dmabuf_frame_cancel cb reason self = dmabuf_close_fds (cb s1)) \<and>
         (\<forall>cb. status (fc (dmabuf_frame_cancel cb reason self)) = status (fc (cb s1))) \<and>
         (status (fc s1) = CAPTURE_FATAL \<longleftrightarrow>
            reason = ZWLR_EXPORT_DMABUF_FRAME_V1_CANCEL_REASON_PERMANENT) \<and>
         (status (fc s1) = CAPTURE_FAILED \<longleftrightarrow>
            reason \<noteq> ZWLR_EXPORT_DMABUF_FRAME_V1_CANCEL_REASON_PERMANENT) \<and>
         effects s1 = effects (dmabuf_capture_stop self) @ [On_done (status (fc s1))]"
proof -
  define st where "st = (if reason = ZWLR_EXPORT_DMABUF_FRAME_V1_CANCEL_REASON_PERMANENT
                         then CAPTURE_FATAL else CAPTURE_FAILED)"
  define s1 where "s1 = dmabuf_do [On_done st] (dmabuf_set_status st (dmabuf_capture_stop self))"
  have run: "\<forall>cb. dmabuf_frame_cancel cb reason self = dmabuf_close_fds (cb s1)"
    by (simp add: dmabuf_frame_cancel_unfold s1_def st_def)
  have st1: "status (fc s1) = st"
    by (simp add: s1_def dmabuf_do_def dmabuf_set_status_def)
  have eff: "effects s1 = effects (dmabuf_capture_stop self) @ [On_done (status (fc s1))]"
    by (simp add: s1_def dmabuf_do_def dmabuf_set_status_def)
  have "(\<forall>cb. status (fc (dmabuf_frame_cancel cb reason self)) = status (fc (cb s1)))"
    using run by (simp add: dmabuf_close_fds_fields)
  moreover have "status (fc s1) = CAPTURE_FATAL \<longleftrightarrow>
      reason = ZWLR_EXPORT_DMABUF_FRAME_V1_CANCEL_REASON_PERMANENT"
    by (simp add: st1 st_def)
  moreover have "status (fc s1) = CAPTURE_FAILED \<longleftrightarrow>
      reason \<noteq> ZWLR_EXPORT_DMABUF_FRAME_V1_CANCEL_REASON_PERMANENT"
    by (simp add: st1 st_def)
  ultimately show ?thesis using run eff by blast
qed

theorem dmabuf_frame_cancel_status_witness:
  "status (fc (dmabuf_frame_cancel on_done_nothing 1 dmabuf_with_object)) = CAPTURE_FATAL \<and>
   status (fc (dmabuf_frame_cancel on_done_nothing 0 dmabuf_with_object)) = CAPTURE_FAILED \<and>
   status (fc (dmabuf_frame_cancel on_done_nothing 2 dmabuf_with_object)) = CAPTURE_FAILED"
proof -
  have id: "\<And>x :: dmabuf_capture. on_done_nothing x = x" by (simp add: on_done_nothing_def)
  have p: "ZWLR_EXPORT_DMABUF_FRAME_V1_CANCEL_REASON_PERMANENT = 1"
    "(0 :: u32) \<noteq> ZWLR_EXPORT_DMABUF_FRAME_V1_CANCEL_REASON_PERMANENT"
    "(2 :: u32) \<noteq> ZWLR_EXPORT_DMABUF_FRAME_V1_CANCEL_REASON_PERMANENT"
    by (simp_all add: ZWLR_EXPORT_DMABUF_FRAME_V1_CANCEL_REASON_PERMANENT_def)
  from dmabuf_frame_cancel_status [of 1 dmabuf_with_object]
  obtain a where a: "\<forall>cb. status (fc (dmabuf_frame_cancel cb 1 dmabuf_with_object)) =
        status (fc (cb a))" "status (fc a) = CAPTURE_FATAL"
    using p by auto
  from dmabuf_frame_cancel_status [of 0 dmabuf_with_object]
  obtain b where b: "\<forall>cb. status (fc (dmabuf_frame_cancel cb 0 dmabuf_with_object)) =
        status (fc (cb b))" "status (fc b) = CAPTURE_FAILED"
    using p by auto
  from dmabuf_frame_cancel_status [of 2 dmabuf_with_object]
  obtain c where c: "\<forall>cb. status (fc (dmabuf_frame_cancel cb 2 dmabuf_with_object)) =
        status (fc (cb c))" "status (fc c) = CAPTURE_FAILED"
    using p by auto
  from a b c show ?thesis by (simp add: id)
qed













end
